theory Spec2Isabelle
  imports Main
begin

section \<open>The circuit breaker of the API gateway\<close>

text \<open>
  The breaker is the Go type \<open>CircuitBreaker\<close> with its methods \<open>Execute\<close>,
  \<open>recordFailure\<close>, \<open>recordSuccess\<close> and \<open>GetState\<close>, and its constructor
  \<open>NewCircuitBreaker\<close>. Every critical section (the code between \<open>mu.Lock()\<close>
  and \<open>mu.Unlock()\<close>) is one atomic function on the breaker, so the mutex is not a
  field of the record. \<open>Execute\<close> has two critical sections with the operation
  between them, outside the lock: \<open>Execute\<close> below is a call that runs alone, and
  \<open>stepCall\<close> and \<open>schedule\<close> run calls that overlap. The calls to \<open>log\<close>
  are left out.
\<close>

subsection \<open>Machine integers, times and durations\<close>

text \<open>
  The counters are Go \<open>int\<close>s, 64 bits wide on the platforms the gateway is built for:
  \<open>++\<close> wraps around in two's complement.
\<close>

definition wrap64 :: "int \<Rightarrow> int" where
  "wrap64 x = (x + 9223372036854775808) mod 18446744073709551616 - 9223372036854775808"

text \<open>
  A \<open>time.Time\<close> is an instant, here the count of nanoseconds since the zero
  \<open>Time\<close>; a \<open>time.Duration\<close> is a 64-bit count of nanoseconds. \<open>time.Since t\<close>
  is \<open>time.Now().Sub(t)\<close>, which saturates at the largest and the smallest
  \<open>Duration\<close>. The reading of the clock is a parameter.
\<close>

type_synonym time = int
type_synonym duration = int

definition maxDuration :: duration where
  "maxDuration = 9223372036854775807"

definition minDuration :: duration where
  "minDuration = - 9223372036854775808"

definition since :: "time \<Rightarrow> time \<Rightarrow> duration" where
  "since now t = max minDuration (min maxDuration (now - t))"

definition second :: duration where
  "second = 1000000000"

subsection \<open>The data model\<close>

datatype State = StateClosed | StateOpen | StateHalfOpen

fun State_String :: "State \<Rightarrow> string" where
  "State_String StateClosed = ''CLOSED''"
| "State_String StateOpen = ''OPEN''"
| "State_String StateHalfOpen = ''HALF-OPEN''"

record CircuitBreaker =
  state :: State
  failureCount :: int
  successCount :: int
  lastFailureTime :: time
  maxFailures :: int
  timeout :: duration
  halfOpenTimeout :: duration

definition NewCircuitBreaker :: CircuitBreaker where
  "NewCircuitBreaker =
     \<lparr> state = StateClosed, failureCount = 0, successCount = 0, lastFailureTime = 0,
       maxFailures = 3, timeout = 10 * second, halfOpenTimeout = 5 * second \<rparr>"

subsection \<open>Recording an outcome\<close>

text \<open>\<open>recordFailure\<close> reads the clock once (\<open>time.Now()\<close>): the reading is \<open>now\<close>.\<close>

definition recordFailure :: "CircuitBreaker \<Rightarrow> time \<Rightarrow> CircuitBreaker" where
  "recordFailure cb now =
     (let cb1 = cb\<lparr>failureCount := wrap64 (failureCount cb + 1)\<rparr>;
          cb2 = cb1\<lparr>lastFailureTime := now\<rparr>
      in if state cb2 = StateHalfOpen
         then cb2\<lparr>state := StateOpen, failureCount := 0\<rparr>
         else if failureCount cb2 \<ge> maxFailures cb2
         then cb2\<lparr>state := StateOpen, failureCount := 0\<rparr>
         else cb2)"

definition recordSuccess :: "CircuitBreaker \<Rightarrow> CircuitBreaker" where
  "recordSuccess cb =
     (let cb1 = cb\<lparr>failureCount := 0\<rparr>
      in if state cb1 = StateHalfOpen
         then (let cb2 = cb1\<lparr>successCount := wrap64 (successCount cb1 + 1)\<rparr>
               in if successCount cb2 \<ge> 2
                  then cb2\<lparr>state := StateClosed, successCount := 0\<rparr>
                  else cb2)
         else cb1)"

subsection \<open>Execute\<close>

text \<open>
  An error is its message. The wrapped operation \<open>fn\<close> acts on the world outside the
  breaker (type \<open>'w\<close>) and returns \<open>nil\<close> (\<open>None\<close>) or an error; it does not touch the
  breaker. \<open>Execute\<close> reads the clock at the cooldown check (\<open>tCheck\<close>) and, through
  \<open>recordFailure\<close>, after the operation (\<open>tRecord\<close>).

  \<open>Execute\<close> is a call that runs alone: no other call enters a critical section of
  the same breaker between its first critical section and its second, so the second
  finds the breaker as the first left it.

  The result names the \<open>return\<close> statement that was taken, in the order of the source:
  the refusal inside the first critical section, the refusal after the unlock, the return
  of the operation's error and the return of \<open>nil\<close>.
\<close>

type_synonym error = string

definition circuitOpenError :: error where
  "circuitOpenError = ''circuit breaker is OPEN''"

datatype exit_point = RefusedLocked | RefusedUnlocked | ReturnedErr | ReturnedNil

record 'w result =
  err :: "error option"
  breaker :: CircuitBreaker
  world :: 'w
  exit_at :: exit_point

text \<open>
  The first critical section of \<open>Execute\<close>: it returns the breaker as the section
  leaves it and \<open>currentState\<close>, the state captured before the unlock, or \<open>None\<close> when
  the call returns from inside the section.
\<close>

definition checkCooldown :: "CircuitBreaker \<Rightarrow> time \<Rightarrow> CircuitBreaker \<times> State option" where
  "checkCooldown cb tCheck =
     (if state cb = StateOpen
      then (if since tCheck (lastFailureTime cb) > timeout cb
            then (let cb1 = cb\<lparr>state := StateHalfOpen, successCount := 0\<rparr>
                  in (cb1, Some (state cb1)))
            else (cb, None))
      else (cb, Some (state cb)))"

definition Execute ::
  "CircuitBreaker \<Rightarrow> time \<Rightarrow> time \<Rightarrow> ('w \<Rightarrow> error option \<times> 'w) \<Rightarrow> 'w \<Rightarrow> 'w result" where
  "Execute cb tCheck tRecord fn w =
     (case checkCooldown cb tCheck of
        (cb1, None) \<Rightarrow>
          \<lparr> err = Some circuitOpenError, breaker = cb1, world = w, exit_at = RefusedLocked \<rparr>
      | (cb1, Some currentState) \<Rightarrow>
          if currentState = StateOpen
          then \<lparr> err = Some circuitOpenError, breaker = cb1, world = w,
                 exit_at = RefusedUnlocked \<rparr>
          else (case fn w of
                  (Some e, w1) \<Rightarrow>
                    \<lparr> err = Some e, breaker = recordFailure cb1 tRecord, world = w1,
                      exit_at = ReturnedErr \<rparr>
                | (None, w1) \<Rightarrow>
                    \<lparr> err = None, breaker = recordSuccess cb1, world = w1,
                      exit_at = ReturnedNil \<rparr>))"

text \<open>
  \<open>GetState\<close> returns the name of the state; the breaker it leaves behind is the second
  component.
\<close>

definition GetState :: "CircuitBreaker \<Rightarrow> string \<times> CircuitBreaker" where
  "GetState cb = (State_String (state cb), cb)"

subsection \<open>Overlapping calls\<close>

text \<open>
  The source releases the lock before it invokes the operation and takes it again to
  record the outcome, so calls on the same breaker overlap. A call is at one of four
  points: before its first critical section, after it with the captured
  \<open>currentState\<close>, after the operation with its outcome, or returned. \<open>stepCall\<close>
  runs the next atomic part of one call on the shared breaker and world: the first
  critical section, the check after the unlock with the operation, or the second critical
  section with the \<open>return\<close>.
\<close>

datatype call_state = Entering | Running State | Recording "error option" | Returned "error option"

fun stepCall ::
  "time \<Rightarrow> ('w \<Rightarrow> error option \<times> 'w) \<Rightarrow> call_state \<Rightarrow> CircuitBreaker \<times> 'w
     \<Rightarrow> call_state \<times> CircuitBreaker \<times> 'w" where
  "stepCall now fn Entering (cb, w) =
     (case checkCooldown cb now of
        (cb1, None) \<Rightarrow> (Returned (Some circuitOpenError), cb1, w)
      | (cb1, Some currentState) \<Rightarrow> (Running currentState, cb1, w))"
| "stepCall now fn (Running currentState) (cb, w) =
     (if currentState = StateOpen then (Returned (Some circuitOpenError), cb, w)
      else (case fn w of (e, w1) \<Rightarrow> (Recording e, cb, w1)))"
| "stepCall now fn (Recording e) (cb, w) =
     (case e of Some x \<Rightarrow> (Returned (Some x), recordFailure cb now, w)
              | None \<Rightarrow> (Returned None, recordSuccess cb, w))"
| "stepCall now fn (Returned e) (cb, w) = (Returned e, cb, w)"

text \<open>
  A call alone takes its three steps one after the other.
\<close>

definition runAlone ::
  "time \<Rightarrow> time \<Rightarrow> time \<Rightarrow> ('w \<Rightarrow> error option \<times> 'w) \<Rightarrow> CircuitBreaker \<times> 'w
     \<Rightarrow> call_state \<times> CircuitBreaker \<times> 'w" where
  "runAlone tCheck tCall tRecord fn s =
     (case stepCall tCheck fn Entering s of
        (p1, s1) \<Rightarrow> (case stepCall tCall fn p1 s1 of
           (p2, s2) \<Rightarrow> stepCall tRecord fn p2 s2))"

text \<open>
  Several calls, each with its own operation, on one breaker: the schedule names, step by
  step, the call that moves and the reading of the clock. A step for a call that does not
  exist is skipped.
\<close>

fun schedule ::
  "(nat \<times> time) list \<Rightarrow> ('w \<Rightarrow> error option \<times> 'w) list
     \<Rightarrow> call_state list \<times> CircuitBreaker \<times> 'w \<Rightarrow> call_state list \<times> CircuitBreaker \<times> 'w" where
  "schedule [] fns (pcs, s) = (pcs, s)"
| "schedule ((i, now) # rest) fns (pcs, s) =
     (if i < length pcs \<and> i < length fns
      then (case stepCall now (fns ! i) (pcs ! i) s of
              (p, s1) \<Rightarrow> schedule rest fns (pcs[i := p], s1))
      else schedule rest fns (pcs, s))"

subsection \<open>Counting the invocations of the operation\<close>

text \<open>
  To count how often \<open>Execute\<close> invokes the operation, the operation is wrapped so that
  every invocation increments a counter kept in the world.
\<close>

definition counted :: "('w \<Rightarrow> error option \<times> 'w) \<Rightarrow> nat \<times> 'w \<Rightarrow> error option \<times> nat \<times> 'w" where
  "counted fn = (\<lambda>(n, w). case fn w of (e, w1) \<Rightarrow> (e, (Suc n, w1)))"

definition invocations :: "(nat \<times> 'w) result \<Rightarrow> nat" where
  "invocations r = fst (world r)"

text \<open>Two operations for concrete runs: one that fails and one that succeeds.\<close>

definition failingOp :: "unit \<Rightarrow> error option \<times> unit" where
  "failingOp w = (Some ''recommendations service returned status 500'', w)"

definition succeedingOp :: "unit \<Rightarrow> error option \<times> unit" where
  "succeedingOp w = (None, w)"

subsection \<open>Runs of recorded outcomes\<close>

text \<open>A recorded outcome is a failure, with the clock reading taken when it is recorded, or a success.\<close>

datatype outcome = Failure time | Success

fun record_outcome :: "CircuitBreaker \<Rightarrow> outcome \<Rightarrow> CircuitBreaker" where
  "record_outcome cb (Failure now) = recordFailure cb now"
| "record_outcome cb Success = recordSuccess cb"

fun record_all :: "CircuitBreaker \<Rightarrow> outcome list \<Rightarrow> CircuitBreaker" where
  "record_all cb [] = cb"
| "record_all cb (x # xs) = record_all (record_outcome cb x) xs"

subsection \<open>Concrete breakers\<close>

text \<open>
  The breaker after three recorded failures, a breaker that is probing, and the breaker
  after the three failures and one successful probe made once the cooldown is over.
\<close>

definition tripped :: CircuitBreaker where
  "tripped = record_all NewCircuitBreaker [Failure 100, Failure 200, Failure 300]"

definition probing :: CircuitBreaker where
  "probing = NewCircuitBreaker\<lparr>state := StateHalfOpen, maxFailures := 100, lastFailureTime := 300\<rparr>"

definition probedOnce :: CircuitBreaker where
  "probedOnce =
     breaker (Execute tripped (300 + 11 * second) (300 + 12 * second) succeedingOp ())"

text \<open>
  The bounds within which the counters of a breaker stay once they hold, as they do for
  the breaker that \<open>NewCircuitBreaker\<close> builds: far from the ends of the 64-bit
  range, so that no increment wraps around.
\<close>

definition counters_in_range :: "CircuitBreaker \<Rightarrow> bool" where
  "counters_in_range cb =
     (0 \<le> failureCount cb \<and> (failureCount cb = 0 \<or> failureCount cb < maxFailures cb)
      \<and> 0 \<le> successCount cb \<and> successCount cb < 2
      \<and> maxFailures cb \<le> 9223372036854775807)"

section \<open>Properties\<close>

subsection \<open>Single steps\<close>

lemma wrap64_id: "- 9223372036854775808 \<le> x \<Longrightarrow> x < 9223372036854775808 \<Longrightarrow> wrap64 x = x"
  by (simp add: wrap64_def)

lemma recordFailure_closed_below:
  assumes "state cb = StateClosed" "- 9223372036854775808 \<le> failureCount cb"
    "failureCount cb + 1 < maxFailures cb" "maxFailures cb \<le> 9223372036854775807"
  shows "recordFailure cb now = cb\<lparr>failureCount := failureCount cb + 1, lastFailureTime := now\<rparr>"
  using assms by (simp add: recordFailure_def wrap64_id Let_def)

lemma recordFailure_closed_trip:
  assumes "state cb = StateClosed" "- 9223372036854775808 \<le> failureCount cb"
    "failureCount cb + 1 \<ge> maxFailures cb" "failureCount cb < 9223372036854775807"
  shows "recordFailure cb now = cb\<lparr>failureCount := 0, lastFailureTime := now, state := StateOpen\<rparr>"
  using assms by (simp add: recordFailure_def wrap64_id Let_def)

lemma recordFailure_halfOpen:
  assumes "state cb = StateHalfOpen"
  shows "recordFailure cb now = cb\<lparr>failureCount := 0, lastFailureTime := now, state := StateOpen\<rparr>"
  using assms by (simp add: recordFailure_def Let_def)

lemma recordSuccess_not_halfOpen:
  "state cb \<noteq> StateHalfOpen \<Longrightarrow> recordSuccess cb = cb\<lparr>failureCount := 0\<rparr>"
  by (simp add: recordSuccess_def Let_def)

lemma recordSuccess_halfOpen:
  assumes "state cb = StateHalfOpen" and "- 9223372036854775808 \<le> successCount cb"
    and "successCount cb < 9223372036854775807"
  shows "recordSuccess cb =
     (if successCount cb + 1 \<ge> 2
      then cb\<lparr>failureCount := 0, successCount := 0, state := StateClosed\<rparr>
      else cb\<lparr>failureCount := 0, successCount := successCount cb + 1\<rparr>)"
  using assms by (simp add: recordSuccess_def wrap64_id Let_def)

lemma failureCount_recordSuccess: "failureCount (recordSuccess cb) = 0"
  by (simp add: recordSuccess_def Let_def)

lemma checkCooldown_open_early:
  "state cb = StateOpen \<Longrightarrow> since tCheck (lastFailureTime cb) \<le> timeout cb
   \<Longrightarrow> checkCooldown cb tCheck = (cb, None)"
  by (simp add: checkCooldown_def)

lemma checkCooldown_open_elapsed:
  "state cb = StateOpen \<Longrightarrow> since tCheck (lastFailureTime cb) > timeout cb
   \<Longrightarrow> checkCooldown cb tCheck = (cb\<lparr>state := StateHalfOpen, successCount := 0\<rparr>, Some StateHalfOpen)"
  by (simp add: checkCooldown_def Let_def)

lemma checkCooldown_not_open:
  "state cb \<noteq> StateOpen \<Longrightarrow> checkCooldown cb tCheck = (cb, Some (state cb))"
  by (simp add: checkCooldown_def)

lemma checkCooldown_captured: "checkCooldown cb tCheck = (cb1, Some s) \<Longrightarrow> s \<noteq> StateOpen"
  by (auto simp add: checkCooldown_def Let_def split: if_splits)

lemma Execute_invoked:
  assumes "checkCooldown cb tCheck = (cb1, Some s)" and "s \<noteq> StateOpen"
  shows "Execute cb tCheck tRecord (counted fn) (n, w) =
     (case fn w of
        (Some e, w1) \<Rightarrow> \<lparr> err = Some e, breaker = recordFailure cb1 tRecord, world = (Suc n, w1),
                          exit_at = ReturnedErr \<rparr>
      | (None, w1) \<Rightarrow> \<lparr> err = None, breaker = recordSuccess cb1, world = (Suc n, w1),
                         exit_at = ReturnedNil \<rparr>)"
  using assms by (simp add: Execute_def counted_def split: prod.splits option.splits)

lemma Execute_refused:
  assumes "checkCooldown cb tCheck = (cb1, None)"
  shows "Execute cb tCheck tRecord fn w =
      \<lparr> err = Some circuitOpenError, breaker = cb, world = w, exit_at = RefusedLocked \<rparr>"
  using assms by (auto simp add: Execute_def checkCooldown_def Let_def split: if_splits)

subsection \<open>Runs\<close>

lemma record_all_append: "record_all cb (xs @ ys) = record_all (record_all cb xs) ys"
  by (induction xs arbitrary: cb) simp_all

lemma closed_run:
  assumes "state cb = StateClosed" "0 \<le> failureCount cb"
    "failureCount cb + int (length ts) < maxFailures cb" "maxFailures cb \<le> 9223372036854775807"
  shows "state (record_all cb (map Failure ts)) = StateClosed
       \<and> failureCount (record_all cb (map Failure ts)) = failureCount cb + int (length ts)
       \<and> maxFailures (record_all cb (map Failure ts)) = maxFailures cb"
  using assms
proof (induction ts arbitrary: cb)
  case Nil
  then show ?case by simp
next
  case (Cons t ts)
  let ?cb1 = "cb\<lparr>failureCount := failureCount cb + 1, lastFailureTime := t\<rparr>"
  have step: "recordFailure cb t = ?cb1"
    using Cons.prems by (intro recordFailure_closed_below) auto
  have "state (record_all ?cb1 (map Failure ts)) = StateClosed
       \<and> failureCount (record_all ?cb1 (map Failure ts)) = failureCount ?cb1 + int (length ts)
       \<and> maxFailures (record_all ?cb1 (map Failure ts)) = maxFailures ?cb1"
    using Cons.prems by (intro Cons.IH) auto
  then show ?case by (simp add: step)
qed

subsection \<open>A call alone and overlapping calls\<close>

lemma Execute_is_runAlone:
  "runAlone tCheck tCall tRecord fn (cb, w) =
     (Returned (err (Execute cb tCheck tRecord fn w)),
      breaker (Execute cb tCheck tRecord fn w), world (Execute cb tCheck tRecord fn w))"
proof (cases "checkCooldown cb tCheck")
  case (Pair cb1 cs)
  show ?thesis
  proof (cases cs)
    case None
    with Pair show ?thesis by (simp add: runAlone_def Execute_def)
  next
    case (Some s)
    with Pair show ?thesis
      by (cases "fn w") (simp add: runAlone_def Execute_def split: option.splits)
  qed
qed

lemma schedule_one_call:
  "schedule [(0, tCheck), (0, tCall), (0, tRecord)] [fn] ([Entering], cb, w) =
     (case runAlone tCheck tCall tRecord fn (cb, w) of (p, s) \<Rightarrow> ([p], s))"
  by (simp add: runAlone_def split: prod.splits)

subsection \<open>The counters stay in range\<close>

lemma recordFailure_in_range:
  "counters_in_range cb \<Longrightarrow> counters_in_range (recordFailure cb now)"
  by (auto simp add: counters_in_range_def recordFailure_def wrap64_id Let_def)

lemma recordSuccess_in_range:
  "counters_in_range cb \<Longrightarrow> counters_in_range (recordSuccess cb)"
  by (auto simp add: counters_in_range_def recordSuccess_def wrap64_id Let_def)

lemma checkCooldown_in_range:
  "counters_in_range cb \<Longrightarrow> counters_in_range (fst (checkCooldown cb tCheck))"
  by (auto simp add: counters_in_range_def checkCooldown_def Let_def)

lemma Execute_in_range:
  assumes "counters_in_range cb"
  shows "counters_in_range (breaker (Execute cb tCheck tRecord fn w))"
proof (cases "checkCooldown cb tCheck")
  case (Pair cb1 cs)
  then have "counters_in_range cb1"
    using checkCooldown_in_range [OF assms, of tCheck] by simp
  then show ?thesis
    using Pair
    by (auto simp add: Execute_def recordFailure_in_range recordSuccess_in_range
        split: option.splits prod.splits)
qed

lemma NewCircuitBreaker_in_range: "counters_in_range NewCircuitBreaker"
  by (simp add: counters_in_range_def NewCircuitBreaker_def)

subsection \<open>The concrete breakers\<close>

lemma tripped_eq: "tripped = NewCircuitBreaker\<lparr>state := StateOpen, lastFailureTime := 300\<rparr>"
  by (simp add: tripped_def NewCircuitBreaker_def recordFailure_def wrap64_def Let_def)

lemma tripped_cooldown_over:
  "since (300 + 11 * second) (lastFailureTime tripped) > timeout tripped"
  unfolding tripped_eq
  by (simp add: NewCircuitBreaker_def since_def second_def maxDuration_def minDuration_def)

lemma probedOnce_eq:
  "probedOnce = NewCircuitBreaker\<lparr>state := StateHalfOpen, lastFailureTime := 300, successCount := 1\<rparr>"
proof -
  have c: "checkCooldown tripped (300 + 11 * second)
      = (tripped\<lparr>state := StateHalfOpen, successCount := 0\<rparr>, Some StateHalfOpen)"
    using tripped_cooldown_over by (intro checkCooldown_open_elapsed) (simp add: tripped_eq)
  show ?thesis
    unfolding probedOnce_def Execute_def c
    by (simp add: succeedingOp_def recordSuccess_def wrap64_def Let_def tripped_eq
        NewCircuitBreaker_def)
qed

section \<open>The claims\<close>

text \<open>
  C1. From the closed state with a zero failure counter, every run of up to
  \<open>maxFailures - 1\<close> recorded failures leaves the breaker closed; the failure after
  a run of \<open>maxFailures - 1\<close> opens it, stores the time of that failure in
  \<open>lastFailureTime\<close> and resets \<open>failureCount\<close> to 0.
\<close>

theorem threshold_trips_closed_breaker:
  assumes "state cb = StateClosed" and "failureCount cb = 0"
    and "1 \<le> maxFailures cb" and "maxFailures cb \<le> 9223372036854775807"
    and "int (length ts) = maxFailures cb - 1"
  shows "(\<forall>k. state (record_all cb (map Failure (take k ts))) = StateClosed)
       \<and> state (record_all cb (map Failure (ts @ [t]))) = StateOpen
       \<and> lastFailureTime (record_all cb (map Failure (ts @ [t]))) = t
       \<and> failureCount (record_all cb (map Failure (ts @ [t]))) = 0"
proof -
  have pre: "state (record_all cb (map Failure (take k ts))) = StateClosed" for k
    using assms by (intro closed_run [THEN conjunct1]) auto
  let ?cb1 = "record_all cb (map Failure ts)"
  have run: "state ?cb1 = StateClosed \<and> failureCount ?cb1 = failureCount cb + int (length ts)
       \<and> maxFailures ?cb1 = maxFailures cb"
    using assms by (intro closed_run) auto
  have last: "recordFailure ?cb1 t = ?cb1\<lparr>failureCount := 0, lastFailureTime := t, state := StateOpen\<rparr>"
    using run assms by (intro recordFailure_closed_trip) auto
  have "record_all cb (map Failure (ts @ [t])) = recordFailure ?cb1 t"
    by (simp add: record_all_append)
  with last pre show ?thesis by simp
qed

theorem threshold_trips_closed_breaker_witness:
  "state (record_all NewCircuitBreaker (map Failure [100, 200])) = StateClosed
   \<and> state (record_all NewCircuitBreaker (map Failure [100, 200, 300])) = StateOpen
   \<and> lastFailureTime (record_all NewCircuitBreaker (map Failure [100, 200, 300])) = 300
   \<and> failureCount (record_all NewCircuitBreaker (map Failure [100, 200, 300])) = 0"
proof -
  have "(\<forall>k. state (record_all NewCircuitBreaker (map Failure (take k [100, 200]))) = StateClosed)
       \<and> state (record_all NewCircuitBreaker (map Failure ([100, 200] @ [300]))) = StateOpen
       \<and> lastFailureTime (record_all NewCircuitBreaker (map Failure ([100, 200] @ [300]))) = 300
       \<and> failureCount (record_all NewCircuitBreaker (map Failure ([100, 200] @ [300]))) = 0"
    by (rule threshold_trips_closed_breaker) (simp_all add: NewCircuitBreaker_def)
  then have a: "state (record_all NewCircuitBreaker (map Failure (take 2 [100, 200]))) = StateClosed"
    and b: "state (record_all NewCircuitBreaker (map Failure ([100, 200] @ [300]))) = StateOpen
       \<and> lastFailureTime (record_all NewCircuitBreaker (map Failure ([100, 200] @ [300]))) = 300
       \<and> failureCount (record_all NewCircuitBreaker (map Failure ([100, 200] @ [300]))) = 0"
    by blast+
  from a b show ?thesis by simp
qed

text \<open>
  C2. While the breaker is open and the time since \<open>lastFailureTime\<close> is less than
  \<open>timeout\<close>, \<open>Execute\<close> returns the circuit-open error, does not invoke the
  operation (the count of invocations and the world are as before) and leaves every field
  of the breaker as it was.
\<close>

theorem open_within_cooldown_refuses:
  assumes "state cb = StateOpen" and "since tCheck (lastFailureTime cb) < timeout cb"
  shows "Execute cb tCheck tRecord (counted fn) (n, w) =
           \<lparr> err = Some circuitOpenError, breaker = cb, world = (n, w), exit_at = RefusedLocked \<rparr>
       \<and> invocations (Execute cb tCheck tRecord (counted fn) (n, w)) = n"
  using assms by (simp add: Execute_def checkCooldown_open_early invocations_def)

theorem open_within_cooldown_refuses_witness:
  "Execute (record_all NewCircuitBreaker (map Failure [100, 200, 300])) (300 + 5 * second)
       (300 + 6 * second) (counted failingOp) (0, ()) =
     \<lparr> err = Some circuitOpenError,
       breaker = record_all NewCircuitBreaker (map Failure [100, 200, 300]),
       world = (0, ()), exit_at = RefusedLocked \<rparr>
   \<and> invocations (Execute (record_all NewCircuitBreaker (map Failure [100, 200, 300]))
       (300 + 5 * second) (300 + 6 * second) (counted failingOp) (0, ())) = 0"
proof -
  let ?cb = "record_all NewCircuitBreaker (map Failure [100, 200, 300])"
  have cb: "?cb = NewCircuitBreaker\<lparr>state := StateOpen, lastFailureTime := 300\<rparr>"
    by (simp add: NewCircuitBreaker_def recordFailure_def wrap64_def Let_def)
  have 1: "state ?cb = StateOpen" unfolding cb by simp
  have 2: "since (300 + 5 * second) (lastFailureTime ?cb) < timeout ?cb"
    unfolding cb
    by (simp add: NewCircuitBreaker_def since_def second_def maxDuration_def minDuration_def)
  show ?thesis
    by (rule open_within_cooldown_refuses [OF 1 2])
qed

text \<open>
  C3. While the breaker is open and the time since \<open>lastFailureTime\<close> exceeds
  \<open>timeout\<close>, the first critical section moves the breaker to half-open with
  \<open>successCount\<close> 0, and the same call goes on as a call on that half-open breaker
  does: it invokes the operation exactly once and records its outcome.
\<close>

theorem open_after_cooldown_probes:
  assumes "state cb = StateOpen" and "since tCheck (lastFailureTime cb) > timeout cb"
  shows "checkCooldown cb tCheck
           = (cb\<lparr>state := StateHalfOpen, successCount := 0\<rparr>, Some StateHalfOpen)
       \<and> Execute cb tCheck tRecord (counted fn) (n, w)
           = Execute (cb\<lparr>state := StateHalfOpen, successCount := 0\<rparr>) tCheck tRecord
               (counted fn) (n, w)
       \<and> invocations (Execute cb tCheck tRecord (counted fn) (n, w)) = Suc n
       \<and> breaker (Execute cb tCheck tRecord (counted fn) (n, w))
           = (case fst (fn w) of
                Some e \<Rightarrow> recordFailure (cb\<lparr>state := StateHalfOpen, successCount := 0\<rparr>) tRecord
              | None \<Rightarrow> recordSuccess (cb\<lparr>state := StateHalfOpen, successCount := 0\<rparr>))"
proof -
  let ?h = "cb\<lparr>state := StateHalfOpen, successCount := 0\<rparr>"
  have c: "checkCooldown cb tCheck = (?h, Some StateHalfOpen)"
    using assms by (rule checkCooldown_open_elapsed)
  have h: "checkCooldown ?h tCheck = (?h, Some StateHalfOpen)"
    by (simp add: checkCooldown_def)
  have e1: "Execute cb tCheck tRecord (counted fn) (n, w) =
     (case fn w of
        (Some e, w1) \<Rightarrow> \<lparr> err = Some e, breaker = recordFailure ?h tRecord, world = (Suc n, w1),
                          exit_at = ReturnedErr \<rparr>
      | (None, w1) \<Rightarrow> \<lparr> err = None, breaker = recordSuccess ?h, world = (Suc n, w1),
                         exit_at = ReturnedNil \<rparr>)"
    by (rule Execute_invoked [OF c]) simp
  have e2: "Execute ?h tCheck tRecord (counted fn) (n, w) =
     (case fn w of
        (Some e, w1) \<Rightarrow> \<lparr> err = Some e, breaker = recordFailure ?h tRecord, world = (Suc n, w1),
                          exit_at = ReturnedErr \<rparr>
      | (None, w1) \<Rightarrow> \<lparr> err = None, breaker = recordSuccess ?h, world = (Suc n, w1),
                         exit_at = ReturnedNil \<rparr>)"
    by (rule Execute_invoked [OF h]) simp
  have inv: "invocations (Execute cb tCheck tRecord (counted fn) (n, w)) = Suc n"
    by (simp add: e1 invocations_def split: prod.splits option.splits)
  have br: "breaker (Execute cb tCheck tRecord (counted fn) (n, w))
           = (case fst (fn w) of Some e \<Rightarrow> recordFailure ?h tRecord | None \<Rightarrow> recordSuccess ?h)"
    by (simp add: e1 split: prod.splits option.splits)
  from c e1 e2 inv br show ?thesis by simp
qed

theorem open_after_cooldown_probes_witness:
  "invocations (Execute tripped (300 + 11 * second) (300 + 12 * second)
      (counted succeedingOp) (0, ())) = 1
   \<and> state (breaker (Execute tripped (300 + 11 * second) (300 + 12 * second)
      (counted succeedingOp) (0, ()))) = StateHalfOpen
   \<and> successCount (breaker (Execute tripped (300 + 11 * second) (300 + 12 * second)
      (counted succeedingOp) (0, ()))) = 1"
proof -
  have 1: "state tripped = StateOpen" unfolding tripped_eq by simp
  note pr = open_after_cooldown_probes [OF 1 tripped_cooldown_over,
      of "300 + 12 * second" succeedingOp 0 "()"]
  from pr have inv: "invocations (Execute tripped (300 + 11 * second) (300 + 12 * second)
      (counted succeedingOp) (0, ())) = Suc 0"
    by blast
  from pr [THEN conjunct2, THEN conjunct2, THEN conjunct2] have br: "breaker (Execute tripped (300 + 11 * second) (300 + 12 * second)
      (counted succeedingOp) (0, ())) = recordSuccess (tripped\<lparr>state := StateHalfOpen, successCount := 0\<rparr>)"
    by (simp add: succeedingOp_def)
  show ?thesis
    unfolding br inv
    by (simp add: recordSuccess_def wrap64_def Let_def)
qed

text \<open>
  C4, as stated, fails for calls that overlap. The breaker is half-open with
  \<open>successCount\<close> 1 (three failures, then one successful probe). Two calls enter
  while it is half-open and both probe. The first probe succeeds and its success closes
  the breaker; the second probe fails, and its failure is recorded on the closed breaker
  by the threshold rule: the breaker stays closed with \<open>failureCount\<close> 1.
\<close>

theorem overlapping_probe_failure_counterexample:
  "state probedOnce = StateHalfOpen
   \<and> schedule [(0, 400), (1, 410)] [succeedingOp, failingOp] ([Entering, Entering], probedOnce, ())
       = ([Running StateHalfOpen, Running StateHalfOpen], probedOnce, ())
   \<and> schedule [(0, 400), (1, 410), (0, 420), (1, 430), (0, 440), (1, 450)]
        [succeedingOp, failingOp] ([Entering, Entering], probedOnce, ())
       = ([Returned None, Returned (Some ''recommendations service returned status 500'')],
          NewCircuitBreaker\<lparr>failureCount := 1, lastFailureTime := 450\<rparr>, ())
   \<and> state (NewCircuitBreaker\<lparr>failureCount := 1, lastFailureTime := 450\<rparr>) = StateClosed
   \<and> state (NewCircuitBreaker\<lparr>failureCount := 1, lastFailureTime := 450\<rparr>) \<noteq> StateOpen"
  unfolding probedOnce_eq
  by (simp add: checkCooldown_def succeedingOp_def failingOp_def recordSuccess_def
      recordFailure_def wrap64_def Let_def NewCircuitBreaker_def)

text \<open>
  C4, amended. A probe failure that is recorded while the breaker is half-open, as it is
  for every call to \<open>Execute\<close> on a half-open breaker that runs alone, leaves the
  breaker open, with \<open>failureCount\<close> 0 and \<open>lastFailureTime\<close> the time of the
  failure, whatever \<open>maxFailures\<close> and the counters are; the operation's error is
  returned.
\<close>

theorem failed_probe_recorded_half_open_reopens:
  assumes "state cb = StateHalfOpen"
  shows "stepCall tRecord fn (Recording (Some e)) (cb, w)
           = (Returned (Some e),
              cb\<lparr>failureCount := 0, lastFailureTime := tRecord, state := StateOpen\<rparr>, w)
       \<and> (fst (fn w) = Some e \<longrightarrow>
            err (Execute cb tCheck tRecord fn w) = Some e
            \<and> breaker (Execute cb tCheck tRecord fn w)
                = cb\<lparr>failureCount := 0, lastFailureTime := tRecord, state := StateOpen\<rparr>)"
proof -
  have r: "recordFailure cb tRecord
      = cb\<lparr>failureCount := 0, lastFailureTime := tRecord, state := StateOpen\<rparr>"
    using assms by (rule recordFailure_halfOpen)
  have c: "checkCooldown cb tCheck = (cb, Some StateHalfOpen)"
    using assms by (simp add: checkCooldown_def)
  have "err (Execute cb tCheck tRecord fn w) = Some e
      \<and> breaker (Execute cb tCheck tRecord fn w) = recordFailure cb tRecord"
    if f: "fst (fn w) = Some e"
  proof -
    obtain w1 where "fn w = (Some e, w1)"
      using f by (cases "fn w") auto
    then show ?thesis by (simp add: Execute_def c)
  qed
  then show ?thesis by (simp add: r)
qed

theorem failed_probe_recorded_half_open_reopens_witness:
  "stepCall 500 failingOp (Recording (Some ''recommendations service returned status 500''))
       (probing, ())
     = (Returned (Some ''recommendations service returned status 500''),
        probing\<lparr>failureCount := 0, lastFailureTime := 500, state := StateOpen\<rparr>, ())
   \<and> err (Execute probing 400 500 failingOp ())
       = Some ''recommendations service returned status 500''
   \<and> breaker (Execute probing 400 500 failingOp ())
       = probing\<lparr>failureCount := 0, lastFailureTime := 500, state := StateOpen\<rparr>
   \<and> maxFailures probing = 100"
proof -
  have 1: "state probing = StateHalfOpen" by (simp add: probing_def)
  have 2: "fst (failingOp ()) = Some ''recommendations service returned status 500''"
    by (simp add: failingOp_def)
  have 3: "maxFailures probing = 100" by (simp add: probing_def)
  from failed_probe_recorded_half_open_reopens [OF 1, of 500 failingOp
      "''recommendations service returned status 500''" "()" 400] 2 3
  show ?thesis by blast
qed

text \<open>
  C5. A call to \<open>Execute\<close> on a half-open breaker whose operation succeeds
  increments \<open>successCount\<close>; when the incremented count is at least 2 the breaker
  closes with both counters 0, and below 2 it stays half-open (with \<open>failureCount\<close>
  0). The count is a 64-bit integer below its largest value.
\<close>

theorem successful_probes_close:
  assumes "state cb = StateHalfOpen" and "fst (fn w) = None"
    and "- 9223372036854775808 \<le> successCount cb" and "successCount cb < 9223372036854775807"
  shows "err (Execute cb tCheck tRecord fn w) = None
       \<and> (successCount cb + 1 < 2 \<longrightarrow>
            breaker (Execute cb tCheck tRecord fn w)
              = cb\<lparr>failureCount := 0, successCount := successCount cb + 1\<rparr>)
       \<and> (successCount cb + 1 \<ge> 2 \<longrightarrow>
            breaker (Execute cb tCheck tRecord fn w)
              = cb\<lparr>failureCount := 0, successCount := 0, state := StateClosed\<rparr>)"
proof -
  have c: "checkCooldown cb tCheck = (cb, Some StateHalfOpen)"
    using assms(1) by (simp add: checkCooldown_def)
  obtain w1 where f: "fn w = (None, w1)"
    using assms(2) by (cases "fn w") simp
  have "Execute cb tCheck tRecord fn w =
      \<lparr> err = None, breaker = recordSuccess cb, world = w1, exit_at = ReturnedNil \<rparr>"
    by (simp add: Execute_def c f)
  then show ?thesis
    using assms by (simp add: recordSuccess_halfOpen)
qed

theorem successful_probes_close_witness:
  "breaker (Execute probing 400 500 succeedingOp ())
     = probing\<lparr>failureCount := 0, successCount := 1\<rparr>
   \<and> state (breaker (Execute probing 400 500 succeedingOp ())) = StateHalfOpen
   \<and> breaker (Execute (probing\<lparr>successCount := 1\<rparr>) 600 700 succeedingOp ())
     = probing\<lparr>failureCount := 0, successCount := 0, state := StateClosed\<rparr>"
proof -
  have f: "fst (succeedingOp ()) = None" by (simp add: succeedingOp_def)
  have a: "breaker (Execute probing 400 500 succeedingOp ())
     = probing\<lparr>failureCount := 0, successCount := 1\<rparr>"
    using successful_probes_close [where cb = probing and fn = succeedingOp and w = "()"
        and tCheck = 400 and tRecord = 500] f
    by (simp add: probing_def NewCircuitBreaker_def)
  have b: "breaker (Execute (probing\<lparr>successCount := 1\<rparr>) 600 700 succeedingOp ())
     = probing\<lparr>failureCount := 0, successCount := 0, state := StateClosed\<rparr>"
    using successful_probes_close [where cb = "probing\<lparr>successCount := 1\<rparr>"
        and fn = succeedingOp and w = "()" and tCheck = 600 and tRecord = 700] f
    by (simp add: probing_def NewCircuitBreaker_def)
  show ?thesis
    unfolding a using b by (simp add: probing_def)
qed

text \<open>
  C6, as stated, fails: \<open>recordFailure\<close> does not touch \<open>successCount\<close>. After
  three failures and one successful probe the breaker is half-open with
  \<open>successCount\<close> 1; a failed probe then opens it and \<open>successCount\<close> is still
  1.
\<close>

theorem failed_probe_keeps_successCount_counterexample:
  "state probedOnce = StateHalfOpen
   \<and> state (breaker (Execute probedOnce (300 + 13 * second) (300 + 14 * second) failingOp ()))
       = StateOpen
   \<and> successCount (breaker (Execute probedOnce (300 + 13 * second) (300 + 14 * second)
       failingOp ())) = 1
   \<and> successCount (breaker (Execute probedOnce (300 + 13 * second) (300 + 14 * second)
       failingOp ())) \<noteq> 0"
  unfolding probedOnce_eq
  by (simp add: Execute_def checkCooldown_def failingOp_def recordFailure_def Let_def
      NewCircuitBreaker_def)

text \<open>
  C6, amended. \<open>successCount\<close> is reset to 0 on the transition from half-open to
  closed and on every transition from open to half-open; the transition from half-open to
  open leaves it as it is.
\<close>

theorem successCount_reset_points:
  "(state cb = StateHalfOpen \<and> state (recordSuccess cb) \<noteq> StateHalfOpen \<longrightarrow>
      state (recordSuccess cb) = StateClosed \<and> successCount (recordSuccess cb) = 0)
   \<and> (state cb = StateHalfOpen \<longrightarrow>
      state (recordFailure cb now) = StateOpen
      \<and> successCount (recordFailure cb now) = successCount cb)
   \<and> (state cb = StateOpen \<and> since tCheck (lastFailureTime cb) > timeout cb \<longrightarrow>
      state (fst (checkCooldown cb tCheck)) = StateHalfOpen
      \<and> successCount (fst (checkCooldown cb tCheck)) = 0)"
proof (intro conjI impI)
  assume a: "state cb = StateHalfOpen \<and> state (recordSuccess cb) \<noteq> StateHalfOpen"
  then show "state (recordSuccess cb) = StateClosed"
    by (simp add: recordSuccess_def Let_def split: if_splits)
  from a show "successCount (recordSuccess cb) = 0"
    by (simp add: recordSuccess_def Let_def split: if_splits)
next
  assume "state cb = StateHalfOpen"
  then show "state (recordFailure cb now) = StateOpen"
    and "successCount (recordFailure cb now) = successCount cb"
    by (simp_all add: recordFailure_halfOpen)
next
  assume "state cb = StateOpen \<and> since tCheck (lastFailureTime cb) > timeout cb"
  then show "state (fst (checkCooldown cb tCheck)) = StateHalfOpen"
    and "successCount (fst (checkCooldown cb tCheck)) = 0"
    by (simp_all add: checkCooldown_open_elapsed)
qed

theorem successCount_reset_points_witness:
  "state (recordSuccess probedOnce) = StateClosed \<and> successCount (recordSuccess probedOnce) = 0
   \<and> state (recordFailure probedOnce 900) = StateOpen
   \<and> successCount (recordFailure probedOnce 900) = successCount probedOnce
   \<and> successCount probedOnce = 1
   \<and> state (fst (checkCooldown tripped (300 + 11 * second))) = StateHalfOpen
   \<and> successCount (fst (checkCooldown tripped (300 + 11 * second))) = 0"
proof -
  have h: "state probedOnce = StateHalfOpen" and s: "successCount probedOnce = 1"
    by (simp_all add: probedOnce_eq)
  have n: "state (recordSuccess probedOnce) \<noteq> StateHalfOpen"
    unfolding probedOnce_eq by (simp add: recordSuccess_def wrap64_def Let_def)
  have o: "state tripped = StateOpen" by (simp add: tripped_eq)
  from successCount_reset_points [of probedOnce 900 0] h n
  have 1: "state (recordSuccess probedOnce) = StateClosed \<and> successCount (recordSuccess probedOnce) = 0
   \<and> state (recordFailure probedOnce 900) = StateOpen
   \<and> successCount (recordFailure probedOnce 900) = successCount probedOnce"
    by blast
  from successCount_reset_points [of tripped 0 "300 + 11 * second"] o tripped_cooldown_over
  have 2: "state (fst (checkCooldown tripped (300 + 11 * second))) = StateHalfOpen
   \<and> successCount (fst (checkCooldown tripped (300 + 11 * second))) = 0"
    by blast
  from 1 2 s show ?thesis by blast
qed

text \<open>
  C7. Every recorded success, in any state, leaves \<open>failureCount\<close> 0; and from the
  closed state with a zero counter, the breaker is closed after every prefix of
  \<open>maxFailures - 1\<close> failures, one success and \<open>maxFailures - 1\<close> failures.
\<close>

theorem interleaved_success_never_trips:
  assumes "state cb = StateClosed" and "failureCount cb = 0"
    and "1 \<le> maxFailures cb" and "maxFailures cb \<le> 9223372036854775807"
    and "int (length ts1) = maxFailures cb - 1" and "int (length ts2) = maxFailures cb - 1"
  shows "failureCount (recordSuccess cb0) = 0
       \<and> (\<forall>k. state (record_all cb (take k (map Failure ts1 @ [Success] @ map Failure ts2)))
              = StateClosed)"
proof -
  let ?run = "map Failure ts1 @ [Success] @ map Failure ts2"
  let ?cb1 = "record_all cb (map Failure ts1)"
  have run1: "state ?cb1 = StateClosed \<and> failureCount ?cb1 = failureCount cb + int (length ts1)
       \<and> maxFailures ?cb1 = maxFailures cb"
    using assms by (intro closed_run) auto
  let ?cb2 = "recordSuccess ?cb1"
  have cb2: "?cb2 = ?cb1\<lparr>failureCount := 0\<rparr>"
    using run1 by (simp add: recordSuccess_not_halfOpen)
  have closed: "state (record_all cb (take k ?run)) = StateClosed" for k
  proof (cases "k \<le> length ts1")
    case True
    then have "take k ?run = map Failure (take k ts1)"
      by (simp add: take_map)
    moreover have "state (record_all cb (map Failure (take k ts1))) = StateClosed"
      using assms by (intro closed_run [THEN conjunct1]) auto
    ultimately show ?thesis by simp
  next
    case False
    then obtain j where k: "k = length ts1 + Suc j"
      by (metis add_Suc_right less_imp_Suc_add not_le)
    have "take k ?run = map Failure ts1 @ Success # map Failure (take j ts2)"
      by (simp add: k take_map)
    then have "record_all cb (take k ?run) = record_all ?cb2 (map Failure (take j ts2))"
      by (simp add: record_all_append)
    moreover have "state (record_all (?cb1\<lparr>failureCount := 0\<rparr>) (map Failure (take j ts2)))
        = StateClosed"
      using assms run1 by (intro closed_run [THEN conjunct1]) auto
    ultimately show ?thesis by (simp add: cb2)
  qed
  then show ?thesis by (simp add: failureCount_recordSuccess)
qed

theorem interleaved_success_never_trips_witness:
  "failureCount (recordSuccess tripped) = 0
   \<and> state (record_all NewCircuitBreaker
        [Failure 100, Failure 200, Success, Failure 300, Failure 400]) = StateClosed
   \<and> state (record_all NewCircuitBreaker
        [Failure 100, Failure 200, Success, Failure 300]) = StateClosed"
proof -
  have "failureCount (recordSuccess tripped) = 0
       \<and> (\<forall>k. state (record_all NewCircuitBreaker
              (take k (map Failure [100, 200] @ [Success] @ map Failure [300, 400])))
              = StateClosed)"
    by (rule interleaved_success_never_trips) (simp_all add: NewCircuitBreaker_def)
  then have a: "failureCount (recordSuccess tripped) = 0"
    and b: "state (record_all NewCircuitBreaker
              (take 5 (map Failure [100, 200] @ [Success] @ map Failure [300, 400])))
              = StateClosed"
    and c: "state (record_all NewCircuitBreaker
              (take 4 (map Failure [100, 200] @ [Success] @ map Failure [300, 400])))
              = StateClosed"
    by blast+
  have 5: "take 5 (map Failure [100, 200] @ [Success] @ map Failure [300, 400])
      = [Failure 100, Failure 200, Success, Failure 300, Failure 400]"
    by code_simp
  have 4: "take 4 (map Failure [100, 200] @ [Success] @ map Failure [300, 400])
      = [Failure 100, Failure 200, Success, Failure 300]"
    by code_simp
  from a b c show ?thesis unfolding 5 4 by blast
qed

text \<open>
  C8. When \<open>Execute\<close> invokes the operation and the operation fails, \<open>Execute\<close>
  returns the operation's error and the breaker has recorded the failure. Whenever
  \<open>Execute\<close> returns an error, either the operation was invoked once and the error is
  the operation's, or the operation was not invoked, the error is the circuit-open error
  and the breaker is unchanged.
\<close>

theorem operation_error_propagates:
  "(invocations (Execute cb tCheck tRecord (counted fn) (n, w)) = Suc n \<and> fst (fn w) = Some e \<longrightarrow>
      err (Execute cb tCheck tRecord (counted fn) (n, w)) = Some e
      \<and> breaker (Execute cb tCheck tRecord (counted fn) (n, w))
          = recordFailure (fst (checkCooldown cb tCheck)) tRecord)
   \<and> (err (Execute cb tCheck tRecord (counted fn) (n, w)) = Some e \<longrightarrow>
        invocations (Execute cb tCheck tRecord (counted fn) (n, w)) = Suc n
          \<and> fst (fn w) = Some e
        \<or> invocations (Execute cb tCheck tRecord (counted fn) (n, w)) = n
          \<and> e = circuitOpenError
          \<and> breaker (Execute cb tCheck tRecord (counted fn) (n, w)) = cb)"
proof (cases "checkCooldown cb tCheck")
  case (Pair cb1 cs)
  show ?thesis
  proof (cases cs)
    case None
    with Pair have "Execute cb tCheck tRecord (counted fn) (n, w) =
      \<lparr> err = Some circuitOpenError, breaker = cb, world = (n, w), exit_at = RefusedLocked \<rparr>"
      by (simp add: Execute_refused)
    then show ?thesis by (simp add: invocations_def)
  next
    case (Some s)
    with Pair have c: "checkCooldown cb tCheck = (cb1, Some s)" by simp
    have "s \<noteq> StateOpen" using c by (rule checkCooldown_captured)
    with c have "Execute cb tCheck tRecord (counted fn) (n, w) =
     (case fn w of
        (Some e, w1) \<Rightarrow> \<lparr> err = Some e, breaker = recordFailure cb1 tRecord, world = (Suc n, w1),
                          exit_at = ReturnedErr \<rparr>
      | (None, w1) \<Rightarrow> \<lparr> err = None, breaker = recordSuccess cb1, world = (Suc n, w1),
                         exit_at = ReturnedNil \<rparr>)"
      by (rule Execute_invoked)
    then show ?thesis
      by (cases "fn w") (auto simp add: invocations_def c split: option.splits)
  qed
qed

theorem operation_error_propagates_witness:
  "err (Execute probing 400 500 (counted failingOp) (0, ()))
     = Some ''recommendations service returned status 500''
   \<and> breaker (Execute probing 400 500 (counted failingOp) (0, ())) = recordFailure probing 500
   \<and> invocations (Execute probing 400 500 (counted failingOp) (0, ())) = 1
   \<and> err (Execute tripped 400 500 (counted failingOp) (0, ())) = Some circuitOpenError
   \<and> invocations (Execute tripped 400 500 (counted failingOp) (0, ())) = 0
   \<and> breaker (Execute tripped 400 500 (counted failingOp) (0, ())) = tripped"
proof -
  let ?msg = "''recommendations service returned status 500''"
  have cp: "checkCooldown probing 400 = (probing, Some StateHalfOpen)"
    by (simp add: checkCooldown_def probing_def)
  have ip: "invocations (Execute probing 400 500 (counted failingOp) (0, ())) = Suc 0"
    by (simp add: Execute_invoked [OF cp] failingOp_def invocations_def)
  have fp: "fst (failingOp ()) = Some ?msg"
    by (simp add: failingOp_def)
  from operation_error_propagates [of probing 400 500 failingOp 0 "()" ?msg] ip fp
  have a: "err (Execute probing 400 500 (counted failingOp) (0, ())) = Some ?msg
      \<and> breaker (Execute probing 400 500 (counted failingOp) (0, ()))
          = recordFailure (fst (checkCooldown probing 400)) 500"
    by blast
  have ct: "checkCooldown tripped 400 = (tripped, None)"
    by (rule checkCooldown_open_early)
      (simp_all add: tripped_eq NewCircuitBreaker_def since_def second_def maxDuration_def
        minDuration_def)
  have et: "err (Execute tripped 400 500 (counted failingOp) (0, ())) = Some circuitOpenError"
    by (simp add: Execute_refused [OF ct])
  have ne: "fst (failingOp ()) \<noteq> Some circuitOpenError"
    by (simp add: failingOp_def circuitOpenError_def)
  from operation_error_propagates [of tripped 400 500 failingOp 0 "()" circuitOpenError] et ne
  have b: "invocations (Execute tripped 400 500 (counted failingOp) (0, ())) = 0
      \<and> breaker (Execute tripped 400 500 (counted failingOp) (0, ())) = tripped"
    by blast
  from a b ip et show ?thesis by (simp add: cp)
qed

text \<open>
  C9. \<open>GetState\<close> returns the name of the current state, which determines the state,
  and leaves every field of the breaker as it was.
\<close>

theorem GetState_no_side_effect:
  "snd (GetState cb) = cb \<and> fst (GetState cb) = State_String (state cb)
   \<and> (fst (GetState cb) = State_String s \<longleftrightarrow> state cb = s)"
  by (cases "state cb"; cases s) (simp_all add: GetState_def)

text \<open>
  C10. The state captured at the end of the first critical section is never open, so
  \<open>Execute\<close> never returns through the refusal after the unlock; the operation is
  invoked once exactly when a state was captured (closed or half-open), and not at all
  exactly when the call returned from inside the critical section.
\<close>

theorem captured_state_never_open:
  "(snd (checkCooldown cb tCheck) = Some s \<longrightarrow> s \<noteq> StateOpen)
   \<and> exit_at (Execute cb tCheck tRecord (counted fn) (n, w)) \<noteq> RefusedUnlocked
   \<and> (invocations (Execute cb tCheck tRecord (counted fn) (n, w)) = Suc n
        \<longleftrightarrow> snd (checkCooldown cb tCheck) = Some StateClosed
          \<or> snd (checkCooldown cb tCheck) = Some StateHalfOpen)
   \<and> (invocations (Execute cb tCheck tRecord (counted fn) (n, w)) = n
        \<longleftrightarrow> snd (checkCooldown cb tCheck) = None)"
proof (cases "checkCooldown cb tCheck")
  case (Pair cb1 cs)
  show ?thesis
  proof (cases cs)
    case None
    with Pair have "Execute cb tCheck tRecord (counted fn) (n, w) =
      \<lparr> err = Some circuitOpenError, breaker = cb, world = (n, w), exit_at = RefusedLocked \<rparr>"
      by (simp add: Execute_refused)
    then show ?thesis using Pair None by (simp add: invocations_def)
  next
    case (Some s)
    with Pair have c: "checkCooldown cb tCheck = (cb1, Some s)" by simp
    have s: "s \<noteq> StateOpen" using c by (rule checkCooldown_captured)
    with c have "Execute cb tCheck tRecord (counted fn) (n, w) =
     (case fn w of
        (Some e, w1) \<Rightarrow> \<lparr> err = Some e, breaker = recordFailure cb1 tRecord, world = (Suc n, w1),
                          exit_at = ReturnedErr \<rparr>
      | (None, w1) \<Rightarrow> \<lparr> err = None, breaker = recordSuccess cb1, world = (Suc n, w1),
                         exit_at = ReturnedNil \<rparr>)"
      by (rule Execute_invoked)
    then show ?thesis using s
      by (cases "fn w"; cases s) (auto simp add: invocations_def c split: option.splits)
  qed
qed

theorem captured_state_never_open_witness:
  "snd (checkCooldown tripped (300 + 11 * second)) = Some StateHalfOpen
   \<and> exit_at (Execute tripped (300 + 11 * second) (300 + 12 * second) (counted failingOp) (0, ()))
       \<noteq> RefusedUnlocked
   \<and> invocations (Execute tripped (300 + 11 * second) (300 + 12 * second) (counted failingOp)
       (0, ())) = 1
   \<and> snd (checkCooldown tripped 400) = None
   \<and> invocations (Execute tripped 400 500 (counted failingOp) (0, ())) = 0"
proof -
  have o: "state tripped = StateOpen" by (simp add: tripped_eq)
  have c1: "snd (checkCooldown tripped (300 + 11 * second)) = Some StateHalfOpen"
    by (simp add: checkCooldown_open_elapsed [OF o tripped_cooldown_over])
  have c2: "snd (checkCooldown tripped 400) = None"
    by (subst checkCooldown_open_early)
      (simp_all add: tripped_eq NewCircuitBreaker_def since_def second_def maxDuration_def
        minDuration_def)
  from captured_state_never_open [of tripped "300 + 11 * second" StateHalfOpen
      "300 + 12 * second" failingOp 0 "()"] c1
  have a: "exit_at (Execute tripped (300 + 11 * second) (300 + 12 * second) (counted failingOp)
       (0, ())) \<noteq> RefusedUnlocked
     \<and> invocations (Execute tripped (300 + 11 * second) (300 + 12 * second) (counted failingOp)
       (0, ())) = Suc 0"
    by blast
  from captured_state_never_open [of tripped 400 StateClosed 500 failingOp 0 "()"] c2
  have b: "invocations (Execute tripped 400 500 (counted failingOp) (0, ())) = 0"
    by blast
  from a b c1 c2 show ?thesis by simp
qed

end
